theory Spec2Isabelle
  imports Complex_Main "HOL-Library.Sublist"
begin

section \<open>Strings and characters\<close>

text \<open>
  A JavaScript string is a sequence of UTF-16 code units. It is modelled as a
  \<open>string\<close> whose characters are the code units below 256; code units from 256 on
  are outside the model. The character classes are those of the regular expression
  \<open>PS_REGEX\<close> of \<open>src/lib.ts\<close>, restricted to that range.
\<close>

definition is_digit :: "char \<Rightarrow> bool" where
  \<comment> \<open>the class \<open>\d\<close>\<close>
  "is_digit c = (c \<in> set ''0123456789'')"

definition is_space :: "char \<Rightarrow> bool" where
  \<comment> \<open>the class \<open>\s\<close>: tab, line feed, vertical tab, form feed, carriage return,
      space and no-break space\<close>
  "is_space c =
     (c \<in> set [CHR 0x09, CHR 0x0A, CHR 0x0B, CHR 0x0C, CHR 0x0D, CHR 0x20, CHR 0xA0])"

definition is_nonspace :: "char \<Rightarrow> bool" where
  \<comment> \<open>the class \<open>\S\<close>\<close>
  "is_nonspace c = (\<not> is_space c)"

definition is_word :: "char \<Rightarrow> bool" where
  \<comment> \<open>the class \<open>\w\<close>\<close>
  "is_word c =
     (c \<in> set ''abcdefghijklmnopqrstuvwxyzABCDEFGHIJKLMNOPQRSTUVWXYZ0123456789_'')"

definition is_digit_dot :: "char \<Rightarrow> bool" where
  \<comment> \<open>the class \<open>[\d.]\<close>\<close>
  "is_digit_dot c = (is_digit c \<or> c = CHR ''.'')"

definition is_digit_colon :: "char \<Rightarrow> bool" where
  \<comment> \<open>the class \<open>[\d:]\<close>\<close>
  "is_digit_colon c = (is_digit c \<or> c = CHR '':'')"

definition is_any :: "char \<Rightarrow> bool" where
  \<comment> \<open>the class \<open>.\<close>: every code unit but the line terminators\<close>
  "is_any c = (c \<notin> set [CHR 0x0A, CHR 0x0D])"

definition charCodeAt :: "string \<Rightarrow> nat \<Rightarrow> nat option" where
  \<comment> \<open>\<open>s.charCodeAt(i)\<close>; \<open>None\<close> stands for the \<open>NaN\<close> of an index out of range\<close>
  "charCodeAt s i = (if i < length s then Some (of_char (s ! i)) else None)"

section \<open>The regular expression engine\<close>

text \<open>
  \<open>PS_REGEX\<close> is anchored at both ends and is a sequence of character classes, each
  under a greedy quantifier \<open>*\<close> or \<open>+\<close>, some of them inside a capture group. An
  item is a class, its least number of repetitions and whether it is captured. A greedy
  quantifier takes the longest run of the class first and backtracks one character at a
  time down to its least count while the rest of the expression fails.
\<close>

type_synonym item = "(char \<Rightarrow> bool) \<times> nat \<times> bool"

fun backtrack ::
  "(string \<Rightarrow> string list option) \<Rightarrow> bool \<Rightarrow> string \<Rightarrow> nat \<Rightarrow> nat \<Rightarrow> string list option"
where
  "backtrack k cap s lo 0 =
     (if 0 < lo then None
      else case k s of
        Some gs \<Rightarrow> Some (if cap then [] # gs else gs)
      | None \<Rightarrow> None)"
| "backtrack k cap s lo (Suc n) =
     (if Suc n < lo then None
      else case k (drop (Suc n) s) of
        Some gs \<Rightarrow> Some (if cap then take (Suc n) s # gs else gs)
      | None \<Rightarrow> backtrack k cap s lo n)"

primrec match_items :: "item list \<Rightarrow> string \<Rightarrow> string list option" where
  "match_items [] = (\<lambda>s. if s = [] then Some [] else None)"
| "match_items (it # its) =
     (\<lambda>s. case it of (cls, lo, cap) \<Rightarrow>
        backtrack (match_items its) cap s lo (length (takeWhile cls s)))"

definition exec :: "item list \<Rightarrow> string \<Rightarrow> string list option" where
  \<comment> \<open>\<open>re.exec(line)\<close> for an anchored expression without flags: the array of the
      whole match followed by the captured groups, or \<open>None\<close> for \<open>null\<close>\<close>
  "exec re line = (case match_items re line of None \<Rightarrow> None | Some gs \<Rightarrow> Some (line # gs))"

definition PS_REGEX :: "item list" where
  "PS_REGEX =
     [(is_space, 0, False), (is_digit, 1, True),
      (is_space, 1, False), (is_digit, 1, True),
      (is_space, 1, False), (is_digit_dot, 1, True),
      (is_space, 1, False), (is_digit_dot, 1, True),
      (is_space, 1, False), (is_nonspace, 1, True),
      (is_space, 1, False), (is_nonspace, 1, True),
      (is_space, 1, False), (is_word, 1, False),
      (is_space, 1, False), (is_word, 1, False),
      (is_space, 1, False), (is_digit, 1, False),
      (is_space, 1, False), (is_digit_colon, 1, False),
      (is_space, 1, False), (is_digit, 1, False),
      (is_space, 1, False), (is_any, 1, True)]"

section \<open>Numbers\<close>

text \<open>
  A JavaScript number is modelled by its exact value: \<open>Fin q\<close> for a finite number and
  \<open>NaN\<close>. The rounding of binary64 is outside the model. Process ids, which the
  expression captures as digit strings, are natural numbers.
\<close>

datatype jsnum = NaN | Fin rat

definition digit_of :: "char \<Rightarrow> nat" where
  "digit_of c = of_char c - 48"

definition digits_val :: "string \<Rightarrow> nat" where
  "digits_val ds = foldl (\<lambda>n c. 10 * n + digit_of c) 0 ds"

definition toNumber :: "string \<Rightarrow> jsnum" where
  \<comment> \<open>the unary \<open>+\<close> on a string of digits and dots: digits, with an optional dot and
      fraction, or a dot and a fraction, is a decimal literal; everything else is \<open>NaN\<close>\<close>
  "toNumber s =
     (let ip = takeWhile is_digit s; rest = dropWhile is_digit s in
      if rest = [] then Fin (of_nat (digits_val ip))
      else if hd rest = CHR ''.'' \<and> list_all is_digit (tl rest) \<and> (ip \<noteq> [] \<or> tl rest \<noteq> [])
      then Fin (of_nat (digits_val ip) + of_nat (digits_val (tl rest)) / 10 ^ length (tl rest))
      else NaN)"

section \<open>Process records and the line parser\<close>

record Process =
  pid :: nat
  ppid :: nat
  cpu :: jsnum
  mem :: jsnum
  stat :: string
  tty :: string
  command :: string

definition parseProcessLine :: "string \<Rightarrow> Process option" where
  "parseProcessLine line =
     (if length line = 0 then None
      else case exec PS_REGEX line of
        None \<Rightarrow> None
      | Some m \<Rightarrow>
          (let stat = m ! 5; tty = m ! 6; ch0 = charCodeAt stat 0 in
           if tty \<noteq> ''??'' \<and> ch0 \<noteq> Some 83 \<and> ch0 \<noteq> Some 115 \<and> ch0 \<noteq> Some 73 then None
           else Some \<lparr>pid = digits_val (m ! 1), ppid = digits_val (m ! 2),
                       cpu = toNumber (m ! 3), mem = toNumber (m ! 4),
                       stat = stat, tty = tty, command = m ! 7\<rparr>))"

definition statLabel :: "string \<Rightarrow> string" where
  "statLabel s =
     (let ch = charCodeAt s 0 in
      if ch = Some 82 then ''Running''
      else if ch = Some 83 then ''Sleeping''
      else if ch = Some 68 then ''Disk''
      else if ch = Some 84 then ''Stopped''
      else if ch = Some 90 then ''Zombie''
      else if ch = Some 73 then ''Idle''
      else s)"

section \<open>String helpers of the filter\<close>

definition lower_char :: "char \<Rightarrow> char" where
  \<comment> \<open>lower case of one code unit below 256: the letters A to Z and the accented
      capitals 0xC0 to 0xDE (but the multiplication sign 0xD7) move up by 32\<close>
  "lower_char c =
     (let n = (of_char c :: nat) in
      if (65 \<le> n \<and> n \<le> 90) \<or> (192 \<le> n \<and> n \<le> 214) \<or> (216 \<le> n \<and> n \<le> 222)
      then char_of (n + 32) else c)"

definition toLowerCase :: "string \<Rightarrow> string" where
  "toLowerCase s = map lower_char s"

fun includes_str :: "string \<Rightarrow> string \<Rightarrow> bool" where
  \<comment> \<open>\<open>s.includes(f)\<close>: \<open>f\<close> occurs in \<open>s\<close> at some position\<close>
  "includes_str [] f = (f = [])"
| "includes_str (c # s) f = (prefix f (c # s) \<or> includes_str s f)"

definition digit_char :: "nat \<Rightarrow> char" where
  "digit_char d = ''0123456789'' ! d"

fun String_of :: "nat \<Rightarrow> string" where
  \<comment> \<open>\<open>String(n)\<close> for a natural number: its decimal digits\<close>
  "String_of n =
     (if n < 10 then [digit_char n] else String_of (n div 10) @ [digit_char (n mod 10)])"

declare String_of.simps [simp del]

section \<open>Sorting\<close>

datatype SortField = Pid | Cpu | Mem | Status | Command

definition sortFields :: "SortField list" where
  "sortFields = [Pid, Cpu, Mem, Status, Command]"

fun jsub :: "jsnum \<Rightarrow> jsnum \<Rightarrow> jsnum" where
  "jsub (Fin a) (Fin b) = Fin (a - b)"
| "jsub _ _ = NaN"

fun jneg :: "jsnum \<Rightarrow> jsnum" where
  "jneg (Fin a) = Fin (- a)"
| "jneg NaN = NaN"

text \<open>
  The comparator that \<open>sortProcs\<close> hands to \<open>Array.prototype.sort\<close>. The collation
  \<open>String.prototype.localeCompare\<close> belongs to the runtime and depends on the locale:
  it is the parameter \<open>lc\<close>, whose sign says which string comes first.
\<close>

definition compareFn ::
  "(string \<Rightarrow> string \<Rightarrow> int) \<Rightarrow> SortField \<Rightarrow> bool \<Rightarrow> Process \<Rightarrow> Process \<Rightarrow> jsnum"
where
  "compareFn lc sortBy sortAsc a b =
     (let v = (case sortBy of
                 Pid \<Rightarrow> Fin (of_int (int (pid a) - int (pid b)))
               | Cpu \<Rightarrow> jsub (cpu a) (cpu b)
               | Mem \<Rightarrow> jsub (mem a) (mem b)
               | Status \<Rightarrow> Fin (of_int (lc (stat a) (stat b)))
               | Command \<Rightarrow> Fin (of_int (lc (command a) (command b))))
      in if sortAsc then v else jneg v)"

text \<open>
  \<open>Array.prototype.sort\<close> is a stable sort; a comparator result of \<open>NaN\<close> counts as
  zero. For a consistent comparator the result is the one stable sorted arrangement, which
  the stable insertion sort below computes: an element goes behind exactly those
  elements that the comparator puts strictly before it or level with it. (For an
  inconsistent comparator the language leaves the order to the implementation.)
\<close>

fun positive :: "jsnum \<Rightarrow> bool" where
  "positive (Fin v) = (0 < v)"
| "positive NaN = False"

fun negative :: "jsnum \<Rightarrow> bool" where
  "negative (Fin v) = (v < 0)"
| "negative NaN = False"

definition comes_after :: "('a \<Rightarrow> 'a \<Rightarrow> jsnum) \<Rightarrow> 'a \<Rightarrow> 'a \<Rightarrow> bool" where
  \<comment> \<open>the comparator's result for \<open>(x, y)\<close> is positive\<close>
  "comes_after c x y = positive (c x y)"

fun insert_sorted :: "('a \<Rightarrow> 'a \<Rightarrow> jsnum) \<Rightarrow> 'a \<Rightarrow> 'a list \<Rightarrow> 'a list" where
  "insert_sorted c x [] = [x]"
| "insert_sorted c x (y # ys) =
     (if comes_after c x y then y # insert_sorted c x ys else x # y # ys)"

definition array_sort :: "('a \<Rightarrow> 'a \<Rightarrow> jsnum) \<Rightarrow> 'a list \<Rightarrow> 'a list" where
  "array_sort c xs = foldr (insert_sorted c) xs []"

definition sortProcs ::
  "(string \<Rightarrow> string \<Rightarrow> int) \<Rightarrow> Process list \<Rightarrow> SortField \<Rightarrow> bool \<Rightarrow> Process list"
where
  "sortProcs lc procs sortBy sortAsc = array_sort (compareFn lc sortBy sortAsc) procs"

fun lexCompare :: "string \<Rightarrow> string \<Rightarrow> int" where
  \<comment> \<open>a locale-naive collation, by code unit: one possible value of \<open>lc\<close>\<close>
  "lexCompare [] [] = 0"
| "lexCompare [] (b # bs) = - 1"
| "lexCompare (a # as) [] = 1"
| "lexCompare (a # as) (b # bs) =
     (if (of_char a :: nat) < of_char b then - 1
      else if (of_char b :: nat) < of_char a then 1
      else lexCompare as bs)"

definition consistent_collation :: "(string \<Rightarrow> string \<Rightarrow> int) \<Rightarrow> bool" where
  \<comment> \<open>what the language asks of a comparator, for the collation: swapping the
      arguments swaps the sign, and the order is transitive\<close>
  "consistent_collation lc =
     ((\<forall>a b. (lc a b < 0) = (0 < lc b a)) \<and>
      (\<forall>a b c. lc a b < 0 \<and> lc b c < 0 \<longrightarrow> lc a c < 0))"

definition tie :: "('a \<Rightarrow> 'a \<Rightarrow> jsnum) \<Rightarrow> 'a \<Rightarrow> 'a \<Rightarrow> bool" where
  \<comment> \<open>the comparator puts neither element strictly before the other\<close>
  "tie c x y = (\<not> comes_after c x y \<and> \<not> comes_after c y x)"

fun tie_free :: "('a \<Rightarrow> 'a \<Rightarrow> jsnum) \<Rightarrow> 'a list \<Rightarrow> bool" where
  \<comment> \<open>no two elements of the list tie\<close>
  "tie_free c [] = True"
| "tie_free c (x # xs) = (list_all (\<lambda>y. \<not> tie c x y) xs \<and> tie_free c xs)"

section \<open>The process snapshot\<close>

datatype error = SpawnFailed

fun split_lines :: "string \<Rightarrow> string list" where
  \<comment> \<open>\<open>text.split("\n")\<close>\<close>
  "split_lines [] = [[]]"
| "split_lines (c # cs) =
     (if c = CHR 0x0A then [] # split_lines cs
      else case split_lines cs of l # ls \<Rightarrow> (c # l) # ls | [] \<Rightarrow> [[c]])"

text \<open>
  \<open>getProcesses\<close> spawns \<open>ps\<close> and reads its output. The outcome of that external
  call is the argument \<open>out\<close>: the text printed, or the error thrown. The loop starts
  at the second line and keeps the parsed records of every process but this one.
\<close>

definition getProcesses :: "nat \<Rightarrow> error + string \<Rightarrow> error + Process list" where
  "getProcesses selfPid out =
     (case out of
        Inl e \<Rightarrow> Inl e
      | Inr text \<Rightarrow>
          Inr (List.map_filter
                 (\<lambda>l. case parseProcessLine l of
                         None \<Rightarrow> None
                       | Some p \<Rightarrow> if pid p \<noteq> selfPid then Some p else None)
                 (drop 1 (split_lines text))))"

section \<open>The view state and the refresh cycle\<close>

record Confirm =
  confirm_pid :: nat
  cmd :: string
  action :: string

record View =
  displayed :: "Process list"
  selected :: int
  scrollOffset :: int
  filter_text :: string
  filtering :: bool
  confirm :: "Confirm option"
  confirmBarVisible :: bool
  refreshing :: bool
  destroyed :: bool
  sortBy :: SortField
  sortAsc :: bool
  viewportH :: int

definition clampScroll :: "View \<Rightarrow> View" where
  "clampScroll st =
     (let maxOffset = max 0 (int (length (displayed st)) - viewportH st);
          st1 = (if scrollOffset st > maxOffset then st\<lparr>scrollOffset := maxOffset\<rparr> else st)
      in if scrollOffset st1 < 0 then st1\<lparr>scrollOffset := 0\<rparr> else st1)"

definition ensureVisible :: "View \<Rightarrow> View" where
  "ensureVisible st =
     clampScroll
       (if selected st < scrollOffset st then st\<lparr>scrollOffset := selected st\<rparr>
        else if selected st \<ge> scrollOffset st + viewportH st
        then st\<lparr>scrollOffset := selected st - viewportH st + 1\<rparr>
        else st)"

definition renderRows :: "View \<Rightarrow> View" where
  \<comment> \<open>the only state that \<open>renderRows\<close> changes is the scroll offset; what it paints
      (and the texts that \<open>updateUI\<close> sets) is not part of the view state\<close>
  "renderRows st = ensureVisible st"

definition filterStep :: "string \<Rightarrow> Process list \<Rightarrow> Process list" where
  \<comment> \<open>the filter of \<open>refresh\<close>: a non-empty string is truthy\<close>
  "filterStep flt sorted_procs =
     (if flt \<noteq> [] then
        (let f = toLowerCase flt in
         filter (\<lambda>p. includes_str (toLowerCase (command p)) f \<or>
                      includes_str (String_of (pid p)) f \<or>
                      includes_str (toLowerCase (statLabel (stat p))) f) sorted_procs)
      else sorted_procs)"

text \<open>
  \<open>refresh\<close> returns the new view state and the error it throws, if any. Its
  \<open>try\<close> has a \<open>finally\<close> that resets the flag and no \<open>catch\<close>: an error of
  \<open>getProcesses\<close> leaves through it to the caller.
\<close>

definition refresh ::
  "(string \<Rightarrow> string \<Rightarrow> int) \<Rightarrow> nat \<Rightarrow> error + string \<Rightarrow> View \<Rightarrow> View \<times> error option"
where
  "refresh lc selfPid out st =
     (if refreshing st \<or> destroyed st then (st, None)
      else case getProcesses selfPid out of
        Inl e \<Rightarrow> (st\<lparr>refreshing := False\<rparr>, Some e)
      | Inr procs \<Rightarrow>
          (let sorted_procs = sortProcs lc procs (sortBy st) (sortAsc st);
               st1 = st\<lparr>displayed := filterStep (filter_text st) sorted_procs\<rparr>;
               st2 = (if selected st1 \<ge> int (length (displayed st1))
                      then st1\<lparr>selected := max 0 (int (length (displayed st1)) - 1)\<rparr>
                      else st1)
           in ((renderRows st2)\<lparr>refreshing := False\<rparr>, None)))"

section \<open>The keypress handler\<close>

record KeyEvent =
  name :: string
  sequence :: "string option"
  ctrl :: bool
  meta :: bool

text \<open>
  What the handler asks of the outside world: a process spawned with its argument
  vector, a pause in milliseconds, the renderer torn down, the process exited with a
  status. The handler is one step on the view state: it returns the new state, the
  effects in order, and the error it throws, if any. Each call makes at most one refresh,
  whose snapshot outcome is \<open>out\<close>. A spawn that throws is swallowed by the handler's
  empty \<open>catch\<close>.
\<close>

datatype effect = Spawn "string list" | Sleep nat | Destroy | Exit nat

definition at_index :: "'a list \<Rightarrow> int \<Rightarrow> 'a option" where
  \<comment> \<open>\<open>xs[i]\<close>; \<open>None\<close> stands for the \<open>undefined\<close> of an index out of range\<close>
  "at_index xs i = (if 0 \<le> i \<and> i < int (length xs) then Some (xs ! nat i) else None)"

definition indexOf :: "'a list \<Rightarrow> 'a \<Rightarrow> int" where
  "indexOf xs x = (if x \<in> set xs then int (length (takeWhile (\<lambda>y. y \<noteq> x) xs)) else - 1)"

definition confirmMode ::
  "(string \<Rightarrow> string \<Rightarrow> int) \<Rightarrow> nat \<Rightarrow> error + string \<Rightarrow> KeyEvent \<Rightarrow> Confirm \<Rightarrow> View
     \<Rightarrow> View \<times> effect list \<times> error option"
where
  "confirmMode lc selfPid out key cf st =
     (if name key = ''y'' then
        (let sig = (if action cf = ''kill'' then ''-9'' else ''-15'');
             effs = Spawn [''kill'', sig, String_of (confirm_pid cf)] #
                    (if action cf = ''restart''
                     then [Sleep 500, Spawn [''sh'', ''-c'', cmd cf]] else []);
             r = refresh lc selfPid out (st\<lparr>confirm := None, confirmBarVisible := False\<rparr>)
         in (fst r, effs, snd r))
      else (st\<lparr>confirm := None, confirmBarVisible := False\<rparr>, [], None))"

definition filterMode ::
  "(string \<Rightarrow> string \<Rightarrow> int) \<Rightarrow> nat \<Rightarrow> error + string \<Rightarrow> KeyEvent \<Rightarrow> View
     \<Rightarrow> View \<times> effect list \<times> error option"
where
  "filterMode lc selfPid out key st =
     (if name key = ''return'' then
        (let r = refresh lc selfPid out (st\<lparr>filtering := False\<rparr>) in (fst r, [], snd r))
      else if name key = ''escape'' then
        (let r = refresh lc selfPid out (st\<lparr>filtering := False, filter_text := []\<rparr>)
         in (fst r, [], snd r))
      else if name key = ''backspace'' then
        (let r = refresh lc selfPid out (st\<lparr>filter_text := butlast (filter_text st)\<rparr>)
         in (fst r, [], snd r))
      else case sequence key of
        Some q \<Rightarrow>
          if length q = 1 \<and> \<not> ctrl key \<and> \<not> meta key then
            (let r = refresh lc selfPid out (st\<lparr>filter_text := filter_text st @ q\<rparr>)
             in (fst r, [], snd r))
          else (st, [], None)
      | None \<Rightarrow> (st, [], None))"

definition askConfirm :: "string \<Rightarrow> View \<Rightarrow> View" where
  \<comment> \<open>the body shared by the cases "K", "t" and "r": a record is truthy,
      \<open>undefined\<close> is not\<close>
  "askConfirm act st =
     (case at_index (displayed st) (selected st) of
        Some p \<Rightarrow>
          st\<lparr>confirm := Some \<lparr>confirm_pid = pid p, cmd = command p, action = act\<rparr>,
              confirmBarVisible := True\<rparr>
      | None \<Rightarrow> st)"

definition normalMode ::
  "(string \<Rightarrow> string \<Rightarrow> int) \<Rightarrow> nat \<Rightarrow> error + string \<Rightarrow> KeyEvent \<Rightarrow> View
     \<Rightarrow> View \<times> effect list \<times> error option"
where
  "normalMode lc selfPid out key st =
     (let k = name key; n = int (length (displayed st)) in
      if k = ''q'' then (st\<lparr>destroyed := True\<rparr>, [Destroy, Exit 0], None)
      else if k = ''j'' \<or> k = ''down'' then
        (if selected st < n - 1
         then (renderRows (st\<lparr>selected := selected st + 1\<rparr>), [], None)
         else (st, [], None))
      else if k = ''k'' \<or> k = ''up'' then
        (if selected st > 0
         then (renderRows (st\<lparr>selected := selected st - 1\<rparr>), [], None)
         else (st, [], None))
      else if k = ''d'' then
        (renderRows (st\<lparr>selected := min (n - 1) (selected st + viewportH st div 2)\<rparr>),
         [], None)
      else if k = ''u'' then
        (renderRows (st\<lparr>selected := max 0 (selected st - viewportH st div 2)\<rparr>), [], None)
      else if k = ''g'' then (renderRows (st\<lparr>selected := 0\<rparr>), [], None)
      else if k = ''G'' then (renderRows (st\<lparr>selected := max 0 (n - 1)\<rparr>), [], None)
      else if k = ''/'' then (st\<lparr>filtering := True\<rparr>, [], None)
      else if k = ''s'' then
        (let i = indexOf sortFields (sortBy st);
             nxt = sortFields ! nat ((i + 1) mod int (length sortFields));
             r = refresh lc selfPid out
                   (st\<lparr>sortBy := nxt, sortAsc := (nxt = Pid \<or> nxt = Command)\<rparr>)
         in (fst r, [], snd r))
      else if k = ''S'' then
        (let r = refresh lc selfPid out (st\<lparr>sortAsc := \<not> sortAsc st\<rparr>)
         in (fst r, [], snd r))
      else if k = ''K'' then (askConfirm ''kill'' st, [], None)
      else if k = ''t'' then (askConfirm ''term'' st, [], None)
      else if k = ''r'' then (askConfirm ''restart'' st, [], None)
      else (st, [], None))"

definition keypress ::
  "(string \<Rightarrow> string \<Rightarrow> int) \<Rightarrow> nat \<Rightarrow> error + string \<Rightarrow> KeyEvent \<Rightarrow> View
     \<Rightarrow> View \<times> effect list \<times> error option"
where
  "keypress lc selfPid out key st =
     (case confirm st of
        Some cf \<Rightarrow> confirmMode lc selfPid out key cf st
      | None \<Rightarrow>
          if filtering st then filterMode lc selfPid out key st
          else normalMode lc selfPid out key st)"

section \<open>Start and timer\<close>

definition CHROME :: int where
  "CHROME = 5"

definition initial :: "int \<Rightarrow> View" where
  \<comment> \<open>the variables of \<open>main\<close> as they are declared, for a renderer of the given height\<close>
  "initial height =
     \<lparr>displayed = [], selected = 0, scrollOffset = 0, filter_text = [], filtering = False,
      confirm = None, confirmBarVisible = False, refreshing = False, destroyed = False,
      sortBy = Cpu, sortAsc = False, viewportH = height - CHROME\<rparr>"




section \<open>Notions used in the statements\<close>



definition group_ok :: "item \<Rightarrow> string \<Rightarrow> bool" where
  "group_ok it g = (case it of (cls, lo, cap) \<Rightarrow> lo \<le> length g \<and> list_all cls g)"



definition makeProc :: "nat \<Rightarrow> rat \<Rightarrow> Process" where
  \<comment> \<open>the helper \<open>makeProc\<close> of \<open>src/lib.test.ts\<close>, with \<open>pid\<close> and \<open>cpu\<close> overridden\<close>
  "makeProc i v = \<lparr>pid = i, ppid = 0, cpu = Fin v, mem = Fin 0, stat = ''Ss'', tty = ''??'',
     command = ''/bin/test''\<rparr>"

definition syslogd :: Process where
  \<comment> \<open>the record of the first line that \<open>src/lib.test.ts\<close> parses\<close>
  "syslogd = \<lparr>pid = 123, ppid = 1, cpu = Fin (23 / 10), mem = Fin (5 / 10), stat = ''Ss'',
     tty = ''??'', command = ''/usr/sbin/syslogd''\<rparr>"

definition zsh :: Process where
  \<comment> \<open>the record of the sleeping shell of \<open>src/lib.test.ts\<close>\<close>
  "zsh = \<lparr>pid = 400, ppid = 1, cpu = Fin 0, mem = Fin (1 / 10), stat = ''S'',
     tty = ''ttys000'', command = ''/bin/zsh''\<rparr>"

definition key_named :: "string \<Rightarrow> KeyEvent" where
  \<comment> \<open>the event of a plain key\<close>
  "key_named n = \<lparr>name = n, sequence = Some n, ctrl = False, meta = False\<rparr>"

definition two_rows :: View where
  \<comment> \<open>a view of two records on a terminal of 15 rows\<close>
  "two_rows = (initial 15)\<lparr>displayed := [syslogd, zsh]\<rparr>"

definition kill_syslogd :: Confirm where
  \<comment> \<open>the confirmation that "K" asks for on the first of the two rows\<close>
  "kill_syslogd = \<lparr>confirm_pid = 123, cmd = ''/usr/sbin/syslogd'', action = ''kill''\<rparr>"

definition view_inv :: "View \<Rightarrow> bool" where
  \<comment> \<open>the selection is an index of the list (0 on the empty list), the offset is between
      0 and the largest one, and the selection is inside the viewport\<close>
  "view_inv st =
     (let n = int (length (displayed st)) in
      0 \<le> selected st \<and> selected st \<le> max 0 (n - 1) \<and>
      0 \<le> scrollOffset st \<and> scrollOffset st \<le> max 0 (n - viewportH st) \<and>
      scrollOffset st \<le> selected st \<and> selected st \<le> scrollOffset st + viewportH st - 1)"

section \<open>The regular expression engine: lemmas\<close>




lemma backtrack_SomeD:
  "backtrack k cap s lo n = Some r \<Longrightarrow>
   \<exists>j gs. lo \<le> j \<and> j \<le> n \<and> k (drop j s) = Some gs \<and> r = (if cap then take j s # gs else gs)"
proof (induction n)
  case 0
  then show ?case by (auto split: if_splits option.splits)
next
  case (Suc n)
  show ?case
  proof (cases "k (drop (Suc n) s)")
    case None
    with Suc.prems have "backtrack k cap s lo n = Some r"
      by (auto split: if_splits)
    from Suc.IH [OF this] obtain j gs
      where "lo \<le> j" "j \<le> n" "k (drop j s) = Some gs"
        "r = (if cap then take j s # gs else gs)"
      by blast
    then have "lo \<le> j \<and> j \<le> Suc n \<and> k (drop j s) = Some gs \<and>
        r = (if cap then take j s # gs else gs)"
      by simp
    then show ?thesis by blast
  next
    case (Some gs)
    with Suc.prems show ?thesis
      by (auto split: if_splits intro!: exI [of _ "Suc n"])
  qed
qed

lemma take_takeWhile_all:
  "j \<le> length (takeWhile cls s) \<Longrightarrow> list_all cls (take j s) \<and> length (take j s) = j"
proof -
  assume j: "j \<le> length (takeWhile cls s)"
  have "take j (takeWhile cls s @ dropWhile cls s) = take j (takeWhile cls s)"
    using j by (simp del: takeWhile_dropWhile_id)
  then have eq: "take j s = take j (takeWhile cls s)" by simp
  have "set (take j (takeWhile cls s)) \<subseteq> set (takeWhile cls s)" by (rule set_take_subset)
  then have "list_all cls (take j (takeWhile cls s))"
    by (auto simp: list_all_iff dest: set_takeWhileD)
  moreover have "length (take j (takeWhile cls s)) = j" using j by simp
  ultimately show ?thesis using eq by simp
qed

lemma match_items_groups:
  "match_items its s = Some gs \<Longrightarrow>
   list_all2 group_ok (filter (\<lambda>it. snd (snd it)) its) gs"
proof (induction its arbitrary: s gs)
  case Nil
  then show ?case by (auto split: if_splits)
next
  case (Cons it its)
  obtain cls lo cap where it: "it = (cls, lo, cap)" by (cases it)
  from Cons.prems it
  have "backtrack (match_items its) cap s lo (length (takeWhile cls s)) = Some gs"
    by simp
  from backtrack_SomeD [OF this] obtain j gs'
    where j: "lo \<le> j" "j \<le> length (takeWhile cls s)"
      and k: "match_items its (drop j s) = Some gs'"
      and gs: "gs = (if cap then take j s # gs' else gs')"
    by blast
  from Cons.IH [OF k] have ih: "list_all2 group_ok (filter (\<lambda>it. snd (snd it)) its) gs'" .
  from take_takeWhile_all [OF j(2)] j(1) have "group_ok it (take j s)"
    by (simp add: group_ok_def it)
  with ih gs it show ?case by (cases cap) simp_all
qed

lemma exec_PS_REGEX_groups:
  assumes "exec PS_REGEX line = Some m"
  shows "\<exists>g1 g2 g3 g4 g5 g6 g7. m = [line, g1, g2, g3, g4, g5, g6, g7] \<and>
           g1 \<noteq> [] \<and> list_all is_digit g1 \<and> g2 \<noteq> [] \<and> list_all is_digit g2 \<and>
           g3 \<noteq> [] \<and> list_all is_digit_dot g3 \<and> g4 \<noteq> [] \<and> list_all is_digit_dot g4 \<and>
           g5 \<noteq> [] \<and> list_all is_nonspace g5 \<and> g6 \<noteq> [] \<and> list_all is_nonspace g6 \<and>
           g7 \<noteq> [] \<and> list_all is_any g7"
proof -
  from assms obtain gs where gs: "match_items PS_REGEX line = Some gs" and m: "m = line # gs"
    by (auto simp: exec_def split: option.splits)
  from match_items_groups [OF gs]
  have "list_all2 group_ok
     [(is_digit, 1, True), (is_digit, 1, True), (is_digit_dot, 1, True),
      (is_digit_dot, 1, True), (is_nonspace, 1, True), (is_nonspace, 1, True),
      (is_any, 1, True)] gs"
    by (simp add: PS_REGEX_def)
  then show ?thesis
    using m by (auto simp: list_all2_Cons1 group_ok_def)
qed









lemma charCodeAt_first: "charCodeAt (c # cs) 0 = Some (of_char c)"
  by (simp add: charCodeAt_def)

lemma code_eq_char:
  "((of_char c :: nat) = 83) = (c = CHR ''S'')"
  "((of_char c :: nat) = 115) = (c = CHR ''s'')"
  "((of_char c :: nat) = 73) = (c = CHR ''I'')"
  using of_char_eq_iff [of c "CHR ''S''", where ?'a = nat]
    of_char_eq_iff [of c "CHR ''s''", where ?'a = nat]
    of_char_eq_iff [of c "CHR ''I''", where ?'a = nat]
  by simp_all


section \<open>The line parser\<close>




lemma header_line_rejected:
  "parseProcessLine
     ''  PID  PPID  %CPU %MEM STAT TT       LSTART                    COMMAND'' = None"
  by code_simp

lemma exec_PS_REGEX_empty: "exec PS_REGEX [] = None"
  by (simp add: exec_def PS_REGEX_def)

text \<open>
  Claim C2. For a line that the expression matches, the status group is not empty, and
  the record is kept exactly when the terminal group is \<open>??\<close> or the status group
  starts with S, s or I.
\<close>

theorem background_policy:
  assumes "exec PS_REGEX line = Some m"
  shows "\<exists>c cs. m ! 5 = c # cs \<and>
           (parseProcessLine line \<noteq> None) =
           (m ! 6 = ''??'' \<or> c = CHR ''S'' \<or> c = CHR ''s'' \<or> c = CHR ''I'')"
proof -
  from exec_PS_REGEX_groups [OF assms] obtain g1 g2 g3 g4 g5 g6 g7
    where m: "m = [line, g1, g2, g3, g4, g5, g6, g7]" and g5: "g5 \<noteq> []"
    by blast
  from g5 obtain c cs where c: "g5 = c # cs" by (cases g5) auto
  have ne: "line \<noteq> []" using assms exec_PS_REGEX_empty by auto
  have "(parseProcessLine line \<noteq> None) =
          (g6 = ''??'' \<or> c = CHR ''S'' \<or> c = CHR ''s'' \<or> c = CHR ''I'')"
    using ne unfolding parseProcessLine_def assms m
    by (auto simp: Let_def c charCodeAt_first code_eq_char)
  then show ?thesis by (simp add: m c)
qed

theorem background_policy_witness:
  "exec PS_REGEX ''  400     1   0.0  0.1 S    ttys000  Thu Feb 20 14:30:00 2026 /bin/zsh'' =
     Some [''  400     1   0.0  0.1 S    ttys000  Thu Feb 20 14:30:00 2026 /bin/zsh'',
           ''400'', ''1'', ''0.0'', ''0.1'', ''S'', ''ttys000'', ''/bin/zsh''] \<and>
   parseProcessLine
     ''  400     1   0.0  0.1 S    ttys000  Thu Feb 20 14:30:00 2026 /bin/zsh'' \<noteq> None"
proof -
  have e: "exec PS_REGEX ''  400     1   0.0  0.1 S    ttys000  Thu Feb 20 14:30:00 2026 /bin/zsh'' =
     Some [''  400     1   0.0  0.1 S    ttys000  Thu Feb 20 14:30:00 2026 /bin/zsh'',
           ''400'', ''1'', ''0.0'', ''0.1'', ''S'', ''ttys000'', ''/bin/zsh'']"
    by code_simp
  from background_policy [OF e] show ?thesis
    using e by simp
qed

section \<open>The status label\<close>

text \<open>
  Claim C10, as amended. The label depends on the first character only: R, S, D, T, Z
  and I give Running, Sleeping, Disk, Stopped, Zombie and Idle; every other status,
  the empty one and those starting with a lower-case s or i among them, is returned as
  it is.
\<close>

theorem statLabel_first_char:
  "statLabel [] = [] \<and>
   statLabel (c # cs) =
     (if c = CHR ''R'' then ''Running''
      else if c = CHR ''S'' then ''Sleeping''
      else if c = CHR ''D'' then ''Disk''
      else if c = CHR ''T'' then ''Stopped''
      else if c = CHR ''Z'' then ''Zombie''
      else if c = CHR ''I'' then ''Idle''
      else c # cs) \<and>
   statLabel (CHR ''s'' # cs) = CHR ''s'' # cs \<and>
   statLabel (CHR ''i'' # cs) = CHR ''i'' # cs"
proof -
  have codes: "((of_char c :: nat) = 82) = (c = CHR ''R'')"
    "((of_char c :: nat) = 68) = (c = CHR ''D'')"
    "((of_char c :: nat) = 84) = (c = CHR ''T'')"
    "((of_char c :: nat) = 90) = (c = CHR ''Z'')"
    using of_char_eq_iff [of c "CHR ''R''", where ?'a = nat]
      of_char_eq_iff [of c "CHR ''D''", where ?'a = nat]
      of_char_eq_iff [of c "CHR ''T''", where ?'a = nat]
      of_char_eq_iff [of c "CHR ''Z''", where ?'a = nat]
    by simp_all
  have 1: "statLabel [] = []" by (simp add: statLabel_def charCodeAt_def)
  have 2: "statLabel (c # cs) =
     (if c = CHR ''R'' then ''Running''
      else if c = CHR ''S'' then ''Sleeping''
      else if c = CHR ''D'' then ''Disk''
      else if c = CHR ''T'' then ''Stopped''
      else if c = CHR ''Z'' then ''Zombie''
      else if c = CHR ''I'' then ''Idle''
      else c # cs)"
    by (simp add: statLabel_def charCodeAt_first codes code_eq_char)
  have 3: "statLabel (CHR ''s'' # cs) = CHR ''s'' # cs"
    by (simp add: statLabel_def charCodeAt_first)
  have 4: "statLabel (CHR ''i'' # cs) = CHR ''i'' # cs"
    by (simp add: statLabel_def charCodeAt_first)
  from 1 2 3 4 show ?thesis by simp
qed

text \<open>
  The claim C10 as it is written says that the background filter accepts a lower-case i.
  It accepts S, s and I: with a terminal, a status i is dropped and a status s is kept.
\<close>

theorem policy_lowercase_i_counterexample:
  "exec PS_REGEX ''  400     1   0.0  0.1 i    ttys000  Thu Feb 20 14:30:00 2026 /bin/zsh'' =
     Some [''  400     1   0.0  0.1 i    ttys000  Thu Feb 20 14:30:00 2026 /bin/zsh'',
           ''400'', ''1'', ''0.0'', ''0.1'', ''i'', ''ttys000'', ''/bin/zsh''] \<and>
   parseProcessLine
     ''  400     1   0.0  0.1 i    ttys000  Thu Feb 20 14:30:00 2026 /bin/zsh'' = None \<and>
   parseProcessLine
     ''  400     1   0.0  0.1 s    ttys000  Thu Feb 20 14:30:00 2026 /bin/zsh'' \<noteq> None"
  by code_simp

section \<open>Sorting: lemmas\<close>

lemma set_insert_sorted: "set (insert_sorted c x ys) = insert x (set ys)"
  by (induction ys) auto

lemma set_array_sort: "set (array_sort c xs) = set xs"
  by (induction xs) (simp_all add: array_sort_def set_insert_sorted)

lemma array_sort_Cons: "array_sort c (x # xs) = insert_sorted c x (array_sort c xs)"
  by (simp add: array_sort_def)

lemma insert_sorted_last:
  "\<forall>z\<in>set zs. comes_after c y z \<Longrightarrow> insert_sorted c y zs = zs @ [y]"
  by (induction zs) auto

lemma array_sort_descending:
  "sorted_wrt (\<lambda>x y. comes_after c x y) ys \<Longrightarrow> array_sort c ys = rev ys"
proof (induction ys)
  case Nil
  then show ?case by (simp add: array_sort_def)
next
  case (Cons y ys)
  then have "array_sort c ys = rev ys" and "\<forall>z\<in>set (rev ys). comes_after c y z"
    by simp_all
  then show ?case
    by (simp add: array_sort_Cons insert_sorted_last)
qed

lemma sorted_insert_sorted:
  assumes trans: "\<And>x y z. comes_after c x y \<Longrightarrow> comes_after c y z \<Longrightarrow> comes_after c x z"
    and "sorted_wrt (\<lambda>x y. comes_after c y x) ys"
    and "\<forall>y\<in>set ys. \<not> tie c x y"
  shows "sorted_wrt (\<lambda>x y. comes_after c y x) (insert_sorted c x ys)"
  using assms(2,3)
proof (induction ys)
  case Nil
  then show ?case by simp
next
  case (Cons y ys)
  show ?case
  proof (cases "comes_after c x y")
    case True
    with Cons show ?thesis
      by (auto simp: set_insert_sorted)
  next
    case False
    with Cons.prems(2) have yx: "comes_after c y x"
      by (simp add: tie_def)
    have "\<forall>z\<in>set ys. comes_after c z x"
      using Cons.prems(1) yx trans by auto
    with False yx Cons.prems(1) show ?thesis by simp
  qed
qed

lemma sorted_array_sort:
  assumes trans: "\<And>x y z. comes_after c x y \<Longrightarrow> comes_after c y z \<Longrightarrow> comes_after c x z"
    and "tie_free c xs"
  shows "sorted_wrt (\<lambda>x y. comes_after c y x) (array_sort c xs)"
  using assms(2)
proof (induction xs)
  case Nil
  then show ?case by (simp add: array_sort_def)
next
  case (Cons x xs)
  then have "sorted_wrt (\<lambda>x y. comes_after c y x) (array_sort c xs)"
    and "\<forall>y\<in>set (array_sort c xs). \<not> tie c x y"
    by (simp_all add: set_array_sort list_all_iff)
  then show ?case
    unfolding array_sort_Cons using trans by (intro sorted_insert_sorted) blast+
qed

lemma positive_jneg: "positive (jneg v) = negative v"
  by (cases v) simp_all

lemma negative_jsub: "negative (jsub a b) = positive (jsub b a)"
  by (cases a; cases b) simp_all

lemma positive_jsub_trans:
  "positive (jsub a b) \<Longrightarrow> positive (jsub b c) \<Longrightarrow> positive (jsub a c)"
  by (cases a; cases b; cases c) simp_all

lemma compareFn_flip:
  "comes_after (compareFn lc f False) x y = negative (compareFn lc f True x y)"
  by (simp add: compareFn_def comes_after_def positive_jneg)

lemma compareFn_swap:
  assumes "consistent_collation lc"
  shows "negative (compareFn lc f True x y) = comes_after (compareFn lc f True) y x"
proof -
  have lc: "\<And>a b. (lc a b < 0) = (0 < lc b a)"
    using assms by (simp add: consistent_collation_def)
  show ?thesis
  proof (cases f)
    case Pid
    then show ?thesis by (auto simp: compareFn_def comes_after_def)
  next
    case Cpu
    then show ?thesis by (simp add: compareFn_def comes_after_def negative_jsub)
  next
    case Mem
    then show ?thesis by (simp add: compareFn_def comes_after_def negative_jsub)
  next
    case Status
    then show ?thesis by (simp add: compareFn_def comes_after_def lc)
  next
    case Command
    then show ?thesis by (simp add: compareFn_def comes_after_def lc)
  qed
qed

lemma compareFn_trans:
  assumes "consistent_collation lc"
    and xy: "comes_after (compareFn lc f True) x y"
    and yz: "comes_after (compareFn lc f True) y z"
  shows "comes_after (compareFn lc f True) x z"
proof -
  have sw: "(lc a b < 0) = (0 < lc b a)" for a b
    using assms(1) unfolding consistent_collation_def by blast
  have tr: "lc a b < 0 \<Longrightarrow> lc b c < 0 \<Longrightarrow> lc a c < 0" for a b c
    using assms(1) unfolding consistent_collation_def by blast
  have tr': "0 < lc a c" if "0 < lc a b" and "0 < lc b c" for a b c
  proof -
    from that have "lc c b < 0" and "lc b a < 0" by (simp_all add: sw)
    then have "lc c a < 0" by (rule tr)
    then show ?thesis by (simp add: sw)
  qed
  show ?thesis
  proof (cases f)
    case Pid
    with xy yz show ?thesis by (simp add: compareFn_def comes_after_def)
  next
    case Cpu
    with xy yz positive_jsub_trans [of "cpu x" "cpu y" "cpu z"] show ?thesis
      by (simp add: compareFn_def comes_after_def)
  next
    case Mem
    with xy yz positive_jsub_trans [of "mem x" "mem y" "mem z"] show ?thesis
      by (simp add: compareFn_def comes_after_def)
  next
    case Status
    with xy yz tr' [of "stat x" "stat y" "stat z"] show ?thesis
      by (simp add: compareFn_def comes_after_def)
  next
    case Command
    with xy yz tr' [of "command x" "command y" "command z"] show ?thesis
      by (simp add: compareFn_def comes_after_def)
  qed
qed

text \<open>
  Claim C3, as amended. When the collation is a consistent comparator and no two records
  of the list tie on the sort key, sorting ascending and then sorting the result
  descending gives the exact reverse of the ascending sequence, for every sort field.
\<close>

theorem sortProcs_descending_reverses:
  assumes "consistent_collation lc" and "tie_free (compareFn lc f True) xs"
  shows "sortProcs lc (sortProcs lc xs f True) f False = rev (sortProcs lc xs f True)"
proof -
  let ?asc = "compareFn lc f True" and ?desc = "compareFn lc f False"
  have "sorted_wrt (\<lambda>x y. comes_after ?asc y x) (array_sort ?asc xs)"
    using compareFn_trans [OF assms(1)] assms(2) by (rule sorted_array_sort)
  then have "sorted_wrt (\<lambda>x y. comes_after ?desc x y) (array_sort ?asc xs)"
    by (simp add: compareFn_flip compareFn_swap [OF assms(1)])
  then show ?thesis
    unfolding sortProcs_def by (rule array_sort_descending)
qed

lemma lexCompare_swap: "(lexCompare a b < 0) = (0 < lexCompare b a)"
  by (induction a b rule: lexCompare.induct) auto

lemma lexCompare_trans:
  "lexCompare a b < 0 \<Longrightarrow> lexCompare b c < 0 \<Longrightarrow> lexCompare a c < 0"
proof (induction a arbitrary: b c)
  case Nil
  then show ?case by (cases b; cases c) simp_all
next
  case (Cons x xs)
  from Cons.prems obtain y ys where b: "b = y # ys" by (cases b) auto
  from Cons.prems b obtain z zs where c: "c = z # zs" by (cases c) auto
  let ?x = "of_char x :: nat" and ?y = "of_char y :: nat" and ?z = "of_char z :: nat"
  from Cons.prems(1) b have xy: "?x < ?y \<or> (?x = ?y \<and> lexCompare xs ys < 0)"
    by (simp split: if_splits)
  from Cons.prems(2) b c have yz: "?y < ?z \<or> (?y = ?z \<and> lexCompare ys zs < 0)"
    by (simp split: if_splits)
  from xy yz Cons.IH [of ys zs] have "?x < ?z \<or> (?x = ?z \<and> lexCompare xs zs < 0)"
    by auto
  then show ?case by (auto simp: c)
qed

lemma lexCompare_consistent: "consistent_collation lexCompare"
  unfolding consistent_collation_def
  using lexCompare_swap lexCompare_trans by blast

theorem sortProcs_descending_reverses_witness:
  "consistent_collation lexCompare \<and>
   tie_free (compareFn lexCompare Cpu True) [makeProc 1 5, makeProc 2 50, makeProc 3 20] \<and>
   sortProcs lexCompare [makeProc 1 5, makeProc 2 50, makeProc 3 20] Cpu True =
     [makeProc 1 5, makeProc 3 20, makeProc 2 50] \<and>
   sortProcs lexCompare [makeProc 1 5, makeProc 3 20, makeProc 2 50] Cpu False =
     [makeProc 2 50, makeProc 3 20, makeProc 1 5]"
proof -
  have t: "tie_free (compareFn lexCompare Cpu True) [makeProc 1 5, makeProc 2 50, makeProc 3 20]"
    by (simp add: tie_def comes_after_def compareFn_def makeProc_def)
  have s: "sortProcs lexCompare [makeProc 1 5, makeProc 2 50, makeProc 3 20] Cpu True =
     [makeProc 1 5, makeProc 3 20, makeProc 2 50]"
    by (simp add: sortProcs_def array_sort_def comes_after_def compareFn_def makeProc_def)
  from sortProcs_descending_reverses [OF lexCompare_consistent t] s lexCompare_consistent t
  show ?thesis by simp
qed

text \<open>
  The claim C3 as it is written includes lists with ties. The sort is stable: two
  different records with the same cpu keep their order in the second sort, and the
  result is not the reverse.
\<close>

theorem sortProcs_ties_counterexample:
  "sortProcs lexCompare (sortProcs lexCompare [makeProc 1 5, makeProc 2 5] Cpu True) Cpu False =
     [makeProc 1 5, makeProc 2 5] \<and>
   rev (sortProcs lexCompare [makeProc 1 5, makeProc 2 5] Cpu True) =
     [makeProc 2 5, makeProc 1 5] \<and>
   makeProc 1 5 \<noteq> makeProc 2 5"
  by (simp add: sortProcs_def array_sort_def comes_after_def compareFn_def makeProc_def)

section \<open>The filter\<close>









text \<open>
  Claim C4. The filter step with the empty query returns the list as it is, and
  filtering a filtered list again with the same query changes nothing.
\<close>

theorem filterStep_identity_idempotent:
  "filterStep [] xs = xs \<and> filterStep q (filterStep q xs) = filterStep q xs"
  by (simp add: filterStep_def Let_def)

lemma filterStep_sys: "filterStep ''SYS'' [syslogd, zsh] = [syslogd]"
  by code_simp

theorem filterStep_identity_idempotent_witness:
  "filterStep [] [syslogd, zsh] = [syslogd, zsh] \<and>
   filterStep ''SYS'' (filterStep ''SYS'' [syslogd, zsh]) = [syslogd]"
  using filterStep_identity_idempotent [of "[syslogd, zsh]" "''SYS''"]
  by (simp add: filterStep_sys)



section \<open>The view state machine\<close>

lemma clampScroll_keeps:
  "displayed (clampScroll st) = displayed st \<and> selected (clampScroll st) = selected st \<and>
   filter_text (clampScroll st) = filter_text st \<and> filtering (clampScroll st) = filtering st \<and>
   confirm (clampScroll st) = confirm st \<and>
   confirmBarVisible (clampScroll st) = confirmBarVisible st \<and>
   refreshing (clampScroll st) = refreshing st \<and> destroyed (clampScroll st) = destroyed st \<and>
   sortBy (clampScroll st) = sortBy st \<and> sortAsc (clampScroll st) = sortAsc st \<and>
   viewportH (clampScroll st) = viewportH st"
  by (simp add: clampScroll_def Let_def)

lemma renderRows_keeps:
  "displayed (renderRows st) = displayed st \<and> selected (renderRows st) = selected st \<and>
   filter_text (renderRows st) = filter_text st \<and> filtering (renderRows st) = filtering st \<and>
   confirm (renderRows st) = confirm st \<and>
   confirmBarVisible (renderRows st) = confirmBarVisible st \<and>
   refreshing (renderRows st) = refreshing st \<and> destroyed (renderRows st) = destroyed st \<and>
   sortBy (renderRows st) = sortBy st \<and> sortAsc (renderRows st) = sortAsc st \<and>
   viewportH (renderRows st) = viewportH st"
  by (simp add: renderRows_def ensureVisible_def clampScroll_keeps)

lemma refresh_keeps:
  "filter_text (fst (refresh lc selfPid out st)) = filter_text st \<and>
   filtering (fst (refresh lc selfPid out st)) = filtering st \<and>
   confirm (fst (refresh lc selfPid out st)) = confirm st \<and>
   confirmBarVisible (fst (refresh lc selfPid out st)) = confirmBarVisible st \<and>
   destroyed (fst (refresh lc selfPid out st)) = destroyed st \<and>
   sortBy (fst (refresh lc selfPid out st)) = sortBy st \<and>
   sortAsc (fst (refresh lc selfPid out st)) = sortAsc st \<and>
   viewportH (fst (refresh lc selfPid out st)) = viewportH st"
  by (cases "getProcesses selfPid out") (simp_all add: refresh_def Let_def renderRows_keeps)


text \<open>
  Claim C6. In normal mode the key "s" moves the sort field one step along pid, cpu,
  mem, status, command and back to pid (the next index modulo the length of
  \<open>sortFields\<close>), and sets the direction: ascending exactly when the new field is pid
  or command.
\<close>

theorem sort_cycle:
  assumes "confirm st = None" and "\<not> filtering st" and "name key = ''s''"
  shows "sortBy (fst (keypress lc selfPid out key st)) =
           (case sortBy st of Pid \<Rightarrow> Cpu | Cpu \<Rightarrow> Mem | Mem \<Rightarrow> Status
            | Status \<Rightarrow> Command | Command \<Rightarrow> Pid) \<and>
         sortAsc (fst (keypress lc selfPid out key st)) =
           (sortBy (fst (keypress lc selfPid out key st)) = Pid \<or>
            sortBy (fst (keypress lc selfPid out key st)) = Command) \<and>
         sortBy (fst (keypress lc selfPid out key st)) =
           sortFields ! ((nat (indexOf sortFields (sortBy st)) + 1) mod length sortFields)"
  using assms
  by (cases "sortBy st")
     (simp_all add: keypress_def normalMode_def Let_def refresh_keeps indexOf_def sortFields_def)

theorem sort_cycle_witness:
  "confirm (initial 15) = None \<and> \<not> filtering (initial 15) \<and>
   name (key_named ''s'') = ''s'' \<and> sortBy (initial 15) = Cpu \<and>
   sortBy (fst (keypress lexCompare 0 (Inr []) (key_named ''s'') (initial 15))) = Mem \<and>
   sortAsc (fst (keypress lexCompare 0 (Inr []) (key_named ''s'') (initial 15))) = False"
  using sort_cycle [of "initial 15" "key_named ''s''" lexCompare 0 "Inr []"]
  by (simp add: initial_def key_named_def)

text \<open>
  Claim C7 at the input where the code leaves it. The view starts with an empty list,
  selection 0 and offset 0, in a viewport of 10 rows. The key "d" takes the minimum
  with \<open>displayed.length - 1\<close> and has no lower bound as "G" and \<open>refresh\<close> have:
  the selection becomes -1, and the invariant that held before is broken.
\<close>

theorem half_page_down_on_empty_list:
  "displayed (initial 15) = [] \<and> selected (initial 15) = 0 \<and> scrollOffset (initial 15) = 0 \<and>
   viewportH (initial 15) = 10 \<and> view_inv (initial 15) \<and>
   keypress lexCompare 0 (Inr []) (key_named ''d'') (initial 15) =
     ((initial 15)\<lparr>selected := - 1\<rparr>, [], None) \<and>
   \<not> view_inv ((initial 15)\<lparr>selected := - 1\<rparr>)"
  by (simp add: initial_def CHROME_def key_named_def keypress_def normalMode_def Let_def
      renderRows_def ensureVisible_def clampScroll_def view_inv_def)

lemma at_index_Nil: "at_index [] i = None"
  by (simp add: at_index_def)

text \<open>
  Claim C8. While a confirmation is pending, a key other than "y" only clears it and
  hides its bar: no effect, no error, every other field as it was. The key "y" sends
  the signal (and for a restart waits and respawns) and refreshes the cleared state. For
  every key, the sort field, the direction, the filter text and the filter mode stay as
  they were. In normal mode "K", "t" and "r" do nothing when there is no record at the
  selection, as on an empty list.
\<close>

theorem confirmation_gate:
  "(confirm st = Some cf \<and> name key \<noteq> ''y'' \<longrightarrow>
      keypress lc selfPid out key st =
        (st\<lparr>confirm := None, confirmBarVisible := False\<rparr>, [], None)) \<and>
   (confirm st = Some cf \<and> name key = ''y'' \<longrightarrow>
      keypress lc selfPid out key st =
        (fst (refresh lc selfPid out (st\<lparr>confirm := None, confirmBarVisible := False\<rparr>)),
         Spawn [''kill'', if action cf = ''kill'' then ''-9'' else ''-15'',
                String_of (confirm_pid cf)] #
           (if action cf = ''restart'' then [Sleep 500, Spawn [''sh'', ''-c'', cmd cf]] else []),
         snd (refresh lc selfPid out (st\<lparr>confirm := None, confirmBarVisible := False\<rparr>)))) \<and>
   (confirm st = Some cf \<longrightarrow>
      confirm (fst (keypress lc selfPid out key st)) = None \<and>
      sortBy (fst (keypress lc selfPid out key st)) = sortBy st \<and>
      sortAsc (fst (keypress lc selfPid out key st)) = sortAsc st \<and>
      filter_text (fst (keypress lc selfPid out key st)) = filter_text st \<and>
      filtering (fst (keypress lc selfPid out key st)) = filtering st) \<and>
   (confirm st = None \<and> \<not> filtering st \<and>
    (name key = ''K'' \<or> name key = ''t'' \<or> name key = ''r'') \<and>
    (displayed st = [] \<or> at_index (displayed st) (selected st) = None) \<longrightarrow>
      keypress lc selfPid out key st = (st, [], None))"
proof -
  have 1: "confirm st = Some cf \<and> name key \<noteq> ''y'' \<longrightarrow>
      keypress lc selfPid out key st =
        (st\<lparr>confirm := None, confirmBarVisible := False\<rparr>, [], None)"
    by (simp add: keypress_def confirmMode_def)
  have 2: "confirm st = Some cf \<and> name key = ''y'' \<longrightarrow>
      keypress lc selfPid out key st =
        (fst (refresh lc selfPid out (st\<lparr>confirm := None, confirmBarVisible := False\<rparr>)),
         Spawn [''kill'', if action cf = ''kill'' then ''-9'' else ''-15'',
                String_of (confirm_pid cf)] #
           (if action cf = ''restart'' then [Sleep 500, Spawn [''sh'', ''-c'', cmd cf]] else []),
         snd (refresh lc selfPid out (st\<lparr>confirm := None, confirmBarVisible := False\<rparr>)))"
    by (simp add: keypress_def confirmMode_def Let_def)
  have 3: "confirm st = Some cf \<longrightarrow>
      confirm (fst (keypress lc selfPid out key st)) = None \<and>
      sortBy (fst (keypress lc selfPid out key st)) = sortBy st \<and>
      sortAsc (fst (keypress lc selfPid out key st)) = sortAsc st \<and>
      filter_text (fst (keypress lc selfPid out key st)) = filter_text st \<and>
      filtering (fst (keypress lc selfPid out key st)) = filtering st"
    by (cases "name key = ''y''") (simp_all add: keypress_def confirmMode_def Let_def refresh_keeps)
  have 4: "confirm st = None \<and> \<not> filtering st \<and>
    (name key = ''K'' \<or> name key = ''t'' \<or> name key = ''r'') \<and>
    (displayed st = [] \<or> at_index (displayed st) (selected st) = None) \<longrightarrow>
      keypress lc selfPid out key st = (st, [], None)"
    by (auto simp: keypress_def normalMode_def Let_def askConfirm_def at_index_Nil)
  from 1 2 3 4 show ?thesis by (intro conjI)
qed

theorem confirmation_gate_witness:
  "keypress lexCompare 0 (Inr []) (key_named ''K'') two_rows =
     (two_rows\<lparr>confirm := Some kill_syslogd, confirmBarVisible := True\<rparr>, [], None) \<and>
   keypress lexCompare 0 (Inr []) (key_named ''j'')
       (two_rows\<lparr>confirm := Some kill_syslogd, confirmBarVisible := True\<rparr>) =
     (two_rows, [], None) \<and>
   keypress lexCompare 0 (Inr []) (key_named ''K'') (initial 15) = (initial 15, [], None)"
proof -
  let ?c = "two_rows\<lparr>confirm := Some kill_syslogd, confirmBarVisible := True\<rparr>"
  have k: "keypress lexCompare 0 (Inr []) (key_named ''K'') two_rows = (?c, [], None)"
    by (simp add: keypress_def normalMode_def Let_def askConfirm_def at_index_def two_rows_def
        initial_def key_named_def kill_syslogd_def syslogd_def)
  have c: "?c\<lparr>confirm := None, confirmBarVisible := False\<rparr> = two_rows"
    by (simp add: two_rows_def initial_def)
  from confirmation_gate [of ?c kill_syslogd "key_named ''j''" lexCompare 0 "Inr []"]
    confirmation_gate [of "initial 15" kill_syslogd "key_named ''K''" lexCompare 0 "Inr []"]
    k c
  show ?thesis
    by (simp add: key_named_def initial_def)
qed




section \<open>The selection and scroll invariant\<close>

lemma ensureVisible_inv:
  assumes "1 \<le> viewportH st" and "0 \<le> selected st"
    and "selected st \<le> max 0 (int (length (displayed st)) - 1)"
  shows "view_inv (ensureVisible st)"
proof (cases "displayed st")
  case Nil
  with assms show ?thesis
    by (auto simp: view_inv_def ensureVisible_def clampScroll_def Let_def)
next
  case (Cons p ps)
  with assms show ?thesis
    by (auto simp: view_inv_def ensureVisible_def clampScroll_def Let_def)
qed

text \<open>
  Apart from "d" on an empty list, every navigation key keeps the invariant of claim
  C7, in a viewport of at least one row.
\<close>

lemma navigation_keeps_view_inv:
  assumes "1 \<le> viewportH st" and "view_inv st" and "confirm st = None" and "\<not> filtering st"
    and "name key \<in> {''j'', ''down'', ''k'', ''up'', ''d'', ''u'', ''g'', ''G''}"
    and "name key = ''d'' \<longrightarrow> displayed st \<noteq> []"
  shows "view_inv (fst (keypress lc selfPid out key st))"
proof -
  let ?n = "int (length (displayed st))"
  have sel: "0 \<le> selected st" "selected st \<le> max 0 (?n - 1)"
    using assms(2) by (simp_all add: view_inv_def Let_def)
  have half: "0 \<le> viewportH st div 2" using assms(1) by simp
  have ev: "view_inv (renderRows (st\<lparr>selected := s\<rparr>))"
    if "0 \<le> s" and "s \<le> max 0 (?n - 1)" for s
    unfolding renderRows_def using assms(1) that by (intro ensureVisible_inv) simp_all
  consider "name key = ''j'' \<or> name key = ''down''" | "name key = ''k'' \<or> name key = ''up''"
    | "name key = ''d''" | "name key = ''u''" | "name key = ''g''" | "name key = ''G''"
    using assms(5) by auto
  then show ?thesis
  proof cases
    case 1
    then show ?thesis
      using assms(2,3,4) sel ev [of "selected st + 1"]
      by (auto simp: keypress_def normalMode_def Let_def)
  next
    case 2
    then show ?thesis
      using assms(2,3,4) sel ev [of "selected st - 1"]
      by (auto simp: keypress_def normalMode_def Let_def)
  next
    case 3
    with assms(6) obtain p ps where "displayed st = p # ps"
      by (cases "displayed st") auto
    with sel half have "0 \<le> min (?n - 1) (selected st + viewportH st div 2)"
      "min (?n - 1) (selected st + viewportH st div 2) \<le> max 0 (?n - 1)"
      by auto
    from ev [OF this] 3 assms(3,4) show ?thesis
      by (simp add: keypress_def normalMode_def Let_def)
  next
    case 4
    have "0 \<le> max 0 (selected st - viewportH st div 2)"
      "max 0 (selected st - viewportH st div 2) \<le> max 0 (?n - 1)"
      using sel half by simp_all
    from ev [OF this] 4 assms(3,4) show ?thesis
      by (simp add: keypress_def normalMode_def Let_def)
  next
    case 5
    from ev [of 0] 5 assms(3,4) show ?thesis
      by (simp add: keypress_def normalMode_def Let_def)
  next
    case 6
    from ev [of "max 0 (?n - 1)"] 6 assms(3,4) show ?thesis
      by (simp add: keypress_def normalMode_def Let_def)
  qed
qed

end
